theory Spec2Isabelle
  imports Main "HOL-Library.Word"
begin

section \<open>JavaScript values used by the frontend\<close>

text \<open>
  A JavaScript string is a sequence of 16-bit code units. String literals of the source are
  ASCII and are written with \<open>js\<close>.
\<close>

type_synonym jsstring = "16 word list"

definition js :: "string \<Rightarrow> jsstring" where
  "js s = map of_char s"

text \<open>
  \<open>String.prototype.trim\<close> strips the ECMAScript WhiteSpace and LineTerminator code points
  from both ends: TAB, LF, VT, FF, CR, SP, NBSP, the Unicode space separators, LS, PS and
  the byte order mark.
\<close>

definition isWhiteSpace :: "16 word \<Rightarrow> bool" where
  "isWhiteSpace c \<longleftrightarrow>
     (0x0009 \<le> c \<and> c \<le> 0x000D) \<or> c = 0x0020 \<or> c = 0x00A0 \<or> c = 0x1680 \<or>
     (0x2000 \<le> c \<and> c \<le> 0x200A) \<or> c = 0x2028 \<or> c = 0x2029 \<or> c = 0x202F \<or>
     c = 0x205F \<or> c = 0x3000 \<or> c = 0xFEFF"

definition trim :: "jsstring \<Rightarrow> jsstring" where
  "trim s = rev (dropWhile isWhiteSpace (rev (dropWhile isWhiteSpace s)))"

text \<open>
  The body of an HTTP response after \<open>JSON.parse\<close>. Numbers are the integers that a double
  represents exactly and prints without an exponent.
\<close>

datatype json =
    JNull
  | JBool bool
  | JNum int
  | JStr jsstring
  | JArr "json list"
  | JObj "(jsstring \<times> json) list"

text \<open>Values thrown by the platform or by the code. Only \<open>Error\<close> carries a message of the source.\<close>

datatype js_error = Error jsstring | TypeError | SyntaxError

fun digits :: "nat \<Rightarrow> jsstring" where
  "digits n = (if n < 10 then [of_nat (48 + n)] else digits (n div 10) @ [of_nat (48 + n mod 10)])"

declare digits.simps [simp del]

definition numberToString :: "int \<Rightarrow> jsstring" where
  "numberToString i = (if i < 0 then js ''-'' @ digits (nat (- i)) else digits (nat i))"

fun join :: "jsstring \<Rightarrow> jsstring list \<Rightarrow> jsstring" where
  "join sep [] = []"
| "join sep [x] = x"
| "join sep (x # y # ys) = x @ sep @ join sep (y # ys)"

text \<open>\<open>ToString\<close> on a parsed JSON value; an array joins its elements, \<open>null\<close> as the empty string.\<close>

fun toString :: "json \<Rightarrow> jsstring" where
  "toString JNull = js ''null''"
| "toString (JBool b) = (if b then js ''true'' else js ''false'')"
| "toString (JNum i) = numberToString i"
| "toString (JStr s) = s"
| "toString (JArr xs) = join (js '','') (map (\<lambda>x. if x = JNull then [] else toString x) xs)"
| "toString (JObj kvs) = js ''[object Object]''"

text \<open>A value that may be \<open>undefined\<close> is a \<open>json option\<close>, \<open>None\<close> for \<open>undefined\<close>.\<close>

fun truthy :: "json option \<Rightarrow> bool" where
  "truthy None = False"
| "truthy (Some JNull) = False"
| "truthy (Some (JBool b)) = b"
| "truthy (Some (JNum i)) = (i \<noteq> 0)"
| "truthy (Some (JStr s)) = (s \<noteq> [])"
| "truthy (Some (JArr xs)) = True"
| "truthy (Some (JObj kvs)) = True"

text \<open>
  Reading a property of a parsed value: \<open>null.p\<close> throws a TypeError, an object yields the
  member (the last one when the key is repeated), anything else has no such property.
\<close>

fun getProp :: "json \<Rightarrow> jsstring \<Rightarrow> js_error + json option" where
  "getProp JNull p = Inl TypeError"
| "getProp (JObj kvs) p = Inr (map_of (rev kvs) p)"
| "getProp v p = Inr None"

text \<open>A template literal renders \<open>undefined\<close> as the text \<open>undefined\<close>.\<close>

definition template :: "json option \<Rightarrow> jsstring" where
  "template v = (case v of None \<Rightarrow> js ''undefined'' | Some j \<Rightarrow> toString j)"

section \<open>The API service (services/api.ts)\<close>

definition API_BASE :: jsstring where
  "API_BASE = js ''http://localhost:8000''"

datatype 'f form_value = FileValue 'f | TextValue jsstring

type_synonym 'f form_data = "(jsstring \<times> 'f form_value) list"

record 'f request =
  url :: jsstring
  httpMethod :: jsstring
  body :: "'f form_data option"

datatype parsed = Unparsable | Parsed json

record response =
  ok :: bool
  statusText :: jsstring
  json_body :: parsed

text \<open>\<open>fetch\<close> either rejects (a TypeError, no response reached the page) or resolves to a response.\<close>

datatype fetch_outcome = Rejected | Response response

text \<open>
  The closures that DetectionScreen passes to \<open>setTimeout\<close>:
  \<open>() => setVerificationStep(n)\<close> and the one that ends the scan.
\<close>

datatype callback = SetVerificationStep int | CompleteScan

text \<open>What a piece of frontend code asks of the browser.\<close>

datatype 'f effect =
    Fetch "'f request"
  | ConsoleLog jsstring
  | ConsoleError jsstring js_error
  | SetTimeout callback nat

fun isFetch :: "'f effect \<Rightarrow> bool" where
  "isFetch (Fetch r) = True"
| "isFetch e = False"

text \<open>
  The \<open>FormData\<close> that \<open>generateImage\<close> fills: one \<open>files\<close> entry for each file, then the
  watermark text when \<open>watermarkText && watermarkText.trim()\<close> is truthy.
  \<open>generateImage\<close> takes the answer of the network as a function of the request it sends,
  and returns what it did (requests, console output) with the value the promise settles to:
  \<open>Inl\<close> for a rejection. A non-ok response is parsed, \<open>{detail: statusText}\<close> standing in for
  a body that does not parse, and \<open>error.detail || fallback\<close> becomes the message.
\<close>

definition formData :: "'f list \<Rightarrow> jsstring option \<Rightarrow> 'f form_data" where
  "formData files watermarkText =
     (let fileEntries = map (\<lambda>file. (js ''files'', FileValue file)) files
      in case watermarkText of
           None \<Rightarrow> fileEntries
         | Some w \<Rightarrow>
             if w \<noteq> [] \<and> trim w \<noteq> []
             then fileEntries @ [(js ''watermark_text'', TextValue w)]
             else fileEntries)"

definition generateImage ::
  "('f request \<Rightarrow> fetch_outcome) \<Rightarrow> 'f list \<Rightarrow> jsstring option
     \<Rightarrow> 'f effect list \<times> (js_error + jsstring)" where
  "generateImage fetch files watermarkText =
     (if length files = 0 then
        ([], Inl (Error (js ''At least one reference image is required'')))
      else if length files > 5 then
        ([], Inl (Error (js ''Maximum 5 reference images allowed'')))
      else
        let req = \<lparr>url = API_BASE @ js ''/api/generate-image'', httpMethod = js ''POST'',
                   body = Some (formData files watermarkText)\<rparr>
        in case fetch req of
             Rejected \<Rightarrow> ([Fetch req], Inl TypeError)
           | Response response \<Rightarrow>
               if \<not> ok response then
                 (let error = (case json_body response of
                                 Unparsable \<Rightarrow> JObj [(js ''detail'', JStr (statusText response))]
                               | Parsed j \<Rightarrow> j)
                  in case getProp error (js ''detail'') of
                       Inl e \<Rightarrow> ([Fetch req], Inl e)
                     | Inr detail \<Rightarrow>
                         ([Fetch req],
                          Inl (Error (if truthy detail then template detail
                                      else js ''Generation failed: '' @ statusText response))))
               else
                 (case json_body response of
                    Unparsable \<Rightarrow> ([Fetch req], Inl SyntaxError)
                  | Parsed data \<Rightarrow>
                      (case getProp data (js ''mock_mode'') of
                         Inl e \<Rightarrow> ([Fetch req], Inl e)
                       | Inr mock_mode \<Rightarrow>
                           (case getProp data (js ''watermark_embedded'') of
                              Inl e \<Rightarrow> ([Fetch req], Inl e)
                            | Inr watermark_embedded \<Rightarrow>
                                (case getProp data (js ''image'') of
                                   Inl e \<Rightarrow> ([Fetch req], Inl e)
                                 | Inr image_field \<Rightarrow>
                                     ([Fetch req]
                                      @ (if truthy mock_mode
                                         then [ConsoleLog (js ''[API] Backend is in mock mode - returning reference image'')]
                                         else [])
                                      @ (if truthy watermark_embedded
                                         then [ConsoleLog (js ''[API] Watermark embedded successfully'')]
                                         else []),
                                      Inr (js ''data:image/png;base64,'' @ template image_field)))))))"

definition healthCheck ::
  "('f request \<Rightarrow> fetch_outcome) \<Rightarrow> 'f effect list \<times> (js_error + bool)" where
  "healthCheck fetch =
     (let req = \<lparr>url = API_BASE @ js ''/health'', httpMethod = js ''GET'', body = None\<rparr>
      in case fetch req of
           Rejected \<Rightarrow> ([Fetch req], Inr False)
         | Response response \<Rightarrow> ([Fetch req], Inr (ok response)))"

section \<open>The generation screen (screens/CreationScreen.tsx)\<close>

record 'f creation =
  sourceImages :: "'f list"
  previewUrls :: "jsstring list"
  activeIndex :: int
  secretData :: jsstring
  isProcessing :: bool
  isComplete :: bool
  generatedImageUrl :: "jsstring option"
  error :: "jsstring option"

definition creation_initial :: "'f creation" where
  "creation_initial =
     \<lparr>sourceImages = [], previewUrls = [], activeIndex = 0, secretData = [],
      isProcessing = False, isComplete = False, generatedImageUrl = None, error = None\<rparr>"

text \<open>
  Each handler runs on the state of the render it was created in and returns the state of the
  next render. \<open>URL.createObjectURL\<close> is the browser's; the handler takes it as an argument.
\<close>

definition handleFiles :: "('f \<Rightarrow> jsstring) \<Rightarrow> 'f list \<Rightarrow> 'f creation \<Rightarrow> 'f creation" where
  "handleFiles createObjectURL files s =
     (let remainingSlots = 5 - int (length (sourceImages s))
      in if remainingSlots \<le> 0 then s
         else
           let newFiles = take (nat remainingSlots) files;
               newUrls = map createObjectURL newFiles;
               s1 = s\<lparr>sourceImages := sourceImages s @ newFiles,
                       previewUrls := previewUrls s @ newUrls\<rparr>;
               s2 = (if length (sourceImages s) = 0 then s1\<lparr>activeIndex := 0\<rparr> else s1)
           in s2\<lparr>isComplete := False\<rparr>)"

text \<open>\<open>xs.filter((_, i) => i !== index)\<close>\<close>

definition filterOutIndex :: "nat \<Rightarrow> 'a list \<Rightarrow> 'a list" where
  "filterOutIndex index xs = map fst (filter (\<lambda>(x, i). i \<noteq> index) (zip xs [0..<length xs]))"

definition removeImage :: "nat \<Rightarrow> 'f creation \<Rightarrow> 'f creation" where
  "removeImage index s =
     (let newImages = filterOutIndex index (sourceImages s);
          newUrls = filterOutIndex index (previewUrls s);
          s1 = s\<lparr>sourceImages := newImages, previewUrls := newUrls\<rparr>
      in if activeIndex s \<ge> int (length newImages)
         then s1\<lparr>activeIndex := max 0 (int (length newImages) - 1)\<rparr>
         else s1)"

definition creation_reset :: "'f creation \<Rightarrow> 'f creation" where
  "creation_reset s =
     s\<lparr>sourceImages := [], previewUrls := [], activeIndex := 0, secretData := [],
       isComplete := False, isProcessing := False, generatedImageUrl := None, error := None\<rparr>"





text \<open>
  The shape of the image library that the updates of the screen are to keep: at most five
  source images, one preview URL for each, and an active index inside the library
  (0 when it is empty).
\<close>

definition creation_invariant :: "'f creation \<Rightarrow> bool" where
  "creation_invariant s \<longleftrightarrow>
     length (sourceImages s) \<le> 5 \<and>
     length (previewUrls s) = length (sourceImages s) \<and>
     0 \<le> activeIndex s \<and>
     activeIndex s \<le> max 0 (int (length (sourceImages s)) - 1)"

section \<open>The verification screen (screens/DetectionScreen.tsx)\<close>

text \<open>The state variable \<open>image\<close> of the source is \<open>imageFile\<close> here.\<close>

record 'f detection =
  imageFile :: "'f option"
  previewUrl :: "jsstring option"
  isScanning :: bool
  scanComplete :: bool
  metadata :: "jsstring option"
  verificationStep :: int

definition detection_initial :: "'f detection" where
  "detection_initial =
     \<lparr>imageFile = None, previewUrl = None, isScanning = False, scanComplete = False,
      metadata = None, verificationStep = 0\<rparr>"

definition processFile :: "('f \<Rightarrow> jsstring) \<Rightarrow> 'f \<Rightarrow> 'f detection \<Rightarrow> 'f detection" where
  "processFile createObjectURL file s =
     s\<lparr>imageFile := Some file, previewUrl := Some (createObjectURL file),
       scanComplete := False, metadata := None, verificationStep := 0\<rparr>"

definition FAKE_METADATA :: jsstring where
  "FAKE_METADATA =
     js ''PROVENANCE_KEY_VERIFIED: 0x92f...a12b'' @ [0x0A] @
     js ''TIMESTAMP: 2024-12-06T19:42:00Z'' @ [0x0A] @
     js ''ORIGIN: NEXUS_TERMINAL_ALPHA'' @ [0x0A] @
     js ''INTEGRITY: 100%''"

definition handleScan :: "'f detection \<Rightarrow> 'f effect list \<times> 'f detection" where
  "handleScan s =
     (if imageFile s = None then ([], s)
      else
        ([SetTimeout (SetVerificationStep 2) 1500,
          SetTimeout (SetVerificationStep 3) 3000,
          SetTimeout CompleteScan 4500],
         s\<lparr>isScanning := True, verificationStep := 1\<rparr>))"

fun runCallback :: "callback \<Rightarrow> 'f detection \<Rightarrow> 'f detection" where
  "runCallback (SetVerificationStep n) s = s\<lparr>verificationStep := n\<rparr>"
| "runCallback CompleteScan s =
     s\<lparr>isScanning := False, scanComplete := True, metadata := Some FAKE_METADATA\<rparr>"

definition detection_reset :: "'f detection \<Rightarrow> 'f detection" where
  "detection_reset s =
     s\<lparr>imageFile := None, previewUrl := None, scanComplete := False, metadata := None,
       verificationStep := 0\<rparr>"

text \<open>\<open>s.split(c)\<close> for a one-character separator.\<close>

fun split :: "16 word \<Rightarrow> jsstring \<Rightarrow> jsstring list" where
  "split c [] = [[]]"
| "split c (x # xs) =
     (if x = c then [] # split c xs
      else (case split c xs of [] \<Rightarrow> [[x]] | l # ls \<Rightarrow> (x # l) # ls))"

text \<open>
  The results panel shows the lines of \<open>metadata\<close> once \<open>scanComplete\<close> holds, and the
  placeholder before. \<open>StepItem\<close> marks a step active or completed from \<open>verificationStep\<close>.
\<close>

definition resultsPanel :: "'f detection \<Rightarrow> jsstring list option" where
  "resultsPanel s =
     (if \<not> scanComplete s then None
      else Some (case metadata s of None \<Rightarrow> [] | Some m \<Rightarrow> split 0x0A m))"




text \<open>
  The page around the component: a clock in milliseconds and the timers set and not yet run,
  each with the time it is due, in the order they were set. When time passes, the timers that
  have come due run in the order of their due times; none of the callbacks sets a timer.
\<close>

record 'f page =
  component :: "'f detection"
  clock :: nat
  timers :: "(nat \<times> callback) list"

definition page_initial :: "'f page" where
  "page_initial = \<lparr>component = detection_initial, clock = 0, timers = []\<rparr>"

fun timersOf :: "nat \<Rightarrow> 'f effect list \<Rightarrow> (nat \<times> callback) list" where
  "timersOf now [] = []"
| "timersOf now (SetTimeout cb delay # es) = (now + delay, cb) # timersOf now es"
| "timersOf now (e # es) = timersOf now es"

definition elapse :: "nat \<Rightarrow> 'f page \<Rightarrow> 'f page" where
  "elapse d p =
     (let now = clock p + d;
          due = sort_key fst (filter (\<lambda>(t, cb). t \<le> now) (timers p))
      in p\<lparr>component := fold runCallback (map snd due) (component p),
           clock := now,
           timers := filter (\<lambda>(t, cb). \<not> t \<le> now) (timers p)\<rparr>)"

text \<open>
  What the user can do, as the rendered elements allow it: a drop on the upload area always
  reaches \<open>handleDrop\<close>; the file input is disabled while scanning; the scan button is rendered
  while \<open>scanComplete\<close> is false and disabled without an image or while scanning; the reset
  button is rendered once \<open>scanComplete\<close> holds.
\<close>

datatype 'f event = DropFile 'f | ChooseFile 'f | ClickScan | ClickReset | Elapse nat

fun dispatch :: "('f \<Rightarrow> jsstring) \<Rightarrow> 'f event \<Rightarrow> 'f page \<Rightarrow> 'f page" where
  "dispatch createObjectURL (DropFile file) p =
     p\<lparr>component := processFile createObjectURL file (component p)\<rparr>"
| "dispatch createObjectURL (ChooseFile file) p =
     (if isScanning (component p) then p
      else p\<lparr>component := processFile createObjectURL file (component p)\<rparr>)"
| "dispatch createObjectURL ClickScan p =
     (if scanComplete (component p) \<or> imageFile (component p) = None \<or> isScanning (component p)
      then p
      else p\<lparr>component := snd (handleScan (component p)),
             timers := timers p @ timersOf (clock p) (fst (handleScan (component p)))\<rparr>)"
| "dispatch createObjectURL ClickReset p =
     (if scanComplete (component p) then p\<lparr>component := detection_reset (component p)\<rparr> else p)"
| "dispatch createObjectURL (Elapse d) p = elapse d p"

definition run :: "('f \<Rightarrow> jsstring) \<Rightarrow> 'f event list \<Rightarrow> 'f page \<Rightarrow> 'f page" where
  "run createObjectURL es p = fold (dispatch createObjectURL) es p"

text \<open>What the steps list and the panels show of a scan.\<close>

definition progress :: "'f page \<Rightarrow> int \<times> bool \<times> bool" where
  "progress p =
     (verificationStep (component p), isScanning (component p), scanComplete (component p))"

text \<open>The timers of the scan started at time \<open>t\<close> that are still to run at time \<open>now\<close>.\<close>

definition scanTimers :: "nat \<Rightarrow> nat \<Rightarrow> (nat \<times> callback) list" where
  "scanTimers t now =
     filter (\<lambda>(due, cb). \<not> due \<le> now)
       [(t + 1500, SetVerificationStep 2), (t + 3000, SetVerificationStep 3),
        (t + 4500, CompleteScan)]"

text \<open>
  The invariant of the page: the scan is never both running and complete, and the timers
  not yet run are those of the running scan, none when no scan runs.
\<close>

definition page_invariant :: "'f page \<Rightarrow> bool" where
  "page_invariant p \<longleftrightarrow>
     \<not> (scanComplete (component p) \<and> isScanning (component p)) \<and>
     (if isScanning (component p)
      then \<exists>t. clock p < t + 4500 \<and> timers p = scanTimers t (clock p)
      else timers p = [])"

section \<open>The routes (App.tsx)\<close>






section \<open>Example environments\<close>




section \<open>Properties of the API service\<close>

lemma getProp_not_null: "data \<noteq> JNull \<Longrightarrow> \<exists>v. getProp data p = Inr v"
  by (cases data) simp_all

lemma generateImage_requests:
  assumes "length files \<noteq> 0" and "\<not> length files > 5"
  shows "\<exists>rest. fst (generateImage fetch files w) =
           Fetch \<lparr>url = API_BASE @ js ''/api/generate-image'', httpMethod = js ''POST'',
                  body = Some (formData files w)\<rparr> # rest \<and>
           filter isFetch rest = []"
proof (cases "fetch \<lparr>url = API_BASE @ js ''/api/generate-image'', httpMethod = js ''POST'',
                  body = Some (formData files w)\<rparr>")
  case Rejected
  with assms show ?thesis by (simp add: generateImage_def Let_def)
next
  case (Response r)
  show ?thesis
  proof (cases "ok r")
    case False
    with assms Response show ?thesis
      by (simp add: generateImage_def Let_def split: sum.split)
  next
    case True
    show ?thesis
    proof (cases "json_body r")
      case Unparsable
      with assms Response True show ?thesis by (simp add: generateImage_def Let_def)
    next
      case (Parsed data)
      with assms Response True show ?thesis
        by (simp add: generateImage_def Let_def split: sum.split)
    qed
  qed
qed

lemma generateImage_success:
  assumes "length files \<noteq> 0" and "\<not> length files > 5"
    and "fetch \<lparr>url = API_BASE @ js ''/api/generate-image'', httpMethod = js ''POST'',
                  body = Some (formData files w)\<rparr> = Response r"
    and "ok r" and "json_body r = Parsed data"
    and "getProp data (js ''image'') = Inr (Some (JStr img))"
  shows "snd (generateImage fetch files w) = Inr (js ''data:image/png;base64,'' @ img)"
proof -
  from assms(6) have nn: "data \<noteq> JNull" by auto
  obtain m where m: "getProp data (js ''mock_mode'') = Inr m"
    using getProp_not_null [OF nn] by blast
  obtain e where e: "getProp data (js ''watermark_embedded'') = Inr e"
    using getProp_not_null [OF nn] by blast
  from assms m e show ?thesis
    by (simp add: generateImage_def Let_def template_def)
qed

lemma dropWhile_all_iff: "(\<forall>c \<in> set (dropWhile P s). P c) \<longleftrightarrow> dropWhile P s = []"
proof (cases "dropWhile P s")
  case Nil
  then show ?thesis by (simp del: dropWhile_eq_Nil_conv)
next
  case (Cons x xs)
  then have "\<not> P x" by (simp add: dropWhile_eq_Cons_conv)
  with Cons show ?thesis by auto
qed

lemma trim_empty_iff: "trim s = [] \<longleftrightarrow> list_all isWhiteSpace s"
proof -
  have "trim s = [] \<longleftrightarrow> (\<forall>c \<in> set (dropWhile isWhiteSpace s). isWhiteSpace c)"
    by (simp add: trim_def dropWhile_eq_Nil_conv)
  also have "\<dots> \<longleftrightarrow> dropWhile isWhiteSpace s = []"
    by (rule dropWhile_all_iff)
  also have "\<dots> \<longleftrightarrow> list_all isWhiteSpace s"
    by (simp add: dropWhile_eq_Nil_conv list_all_iff)
  finally show ?thesis .
qed

lemma files_not_watermark: "js ''files'' \<noteq> js ''watermark_text''"
  by (simp add: js_def)

lemma formData_files_keys:
  "js ''watermark_text'' \<notin> fst ` set (map (\<lambda>file. (js ''files'', FileValue file)) files)"
  using files_not_watermark by auto

lemma formData_watermark_iff:
  "js ''watermark_text'' \<in> fst ` set (formData files watermarkText) \<longleftrightarrow>
     (\<exists>w. watermarkText = Some w \<and> trim w \<noteq> [])"
proof (cases watermarkText)
  case None
  then show ?thesis using formData_files_keys [of files] by (simp add: formData_def)
next
  case (Some w)
  have "trim [] = []" by (simp add: trim_def)
  then have "trim w \<noteq> [] \<Longrightarrow> w \<noteq> []" by auto
  with Some show ?thesis using formData_files_keys [of files]
    by (auto simp: formData_def)
qed

lemma formData_watermark_value:
  assumes "watermarkText = Some w" and "trim w \<noteq> []"
  shows "map snd (filter (\<lambda>(k, v). k = js ''watermark_text'') (formData files watermarkText)) = [TextValue w]"
proof -
  have "trim [] = []" by (simp add: trim_def)
  with assms have "w \<noteq> []" by auto
  moreover have "filter (\<lambda>(k, v). k = js ''watermark_text'') (map (\<lambda>file. (js ''files'', FileValue file)) files) = []"
    using files_not_watermark by (induction files) auto
  ultimately show ?thesis using assms by (simp add: formData_def)
qed

text \<open>
  Claim C9. \<open>healthCheck\<close> never rejects: whatever the fetch of \<open>/health\<close> does, the promise
  resolves to a boolean, \<open>true\<close> exactly when the fetch resolved to a response with an ok
  status, \<open>false\<close> on a non-ok status and on a network failure.
\<close>

theorem healthCheck_never_rejects:
  "(snd (healthCheck fetch) = Inr True \<or> snd (healthCheck fetch) = Inr False) \<and>
   (snd (healthCheck fetch) = Inr True \<longleftrightarrow>
      (\<exists>r. fetch \<lparr>url = API_BASE @ js ''/health'', httpMethod = js ''GET'', body = None\<rparr> = Response r \<and> ok r)) \<and>
   (snd (healthCheck fetch) = Inr False \<longleftrightarrow>
      fetch \<lparr>url = API_BASE @ js ''/health'', httpMethod = js ''GET'', body = None\<rparr> = Rejected \<or>
      (\<exists>r. fetch \<lparr>url = API_BASE @ js ''/health'', httpMethod = js ''GET'', body = None\<rparr> = Response r \<and> \<not> ok r))"
proof (cases "fetch \<lparr>url = API_BASE @ js ''/health'', httpMethod = js ''GET'', body = None\<rparr>")
  case Rejected
  then show ?thesis by (simp add: healthCheck_def)
next
  case (Response r)
  then show ?thesis by (cases "ok r") (simp_all add: healthCheck_def)
qed

theorem healthCheck_never_rejects_witness:
  "snd (healthCheck (\<lambda>r. Rejected)) = Inr False \<and>
   snd (healthCheck (\<lambda>r. Response \<lparr>ok = True, statusText = js ''OK'', json_body = Unparsable\<rparr>)) = Inr True \<and>
   snd (healthCheck (\<lambda>r. Response \<lparr>ok = False, statusText = js ''Not Found'', json_body = Unparsable\<rparr>)) = Inr False"
  using healthCheck_never_rejects [of "\<lambda>r. Rejected"]
    healthCheck_never_rejects [of "\<lambda>r. Response \<lparr>ok = True, statusText = js ''OK'', json_body = Unparsable\<rparr>"]
    healthCheck_never_rejects [of "\<lambda>r. Response \<lparr>ok = False, statusText = js ''Not Found'', json_body = Unparsable\<rparr>"]
  by auto

text \<open>
  Claim C7. \<open>generateImage\<close> rejects with "At least one reference image is required" on an
  empty file list and with "Maximum 5 reference images allowed" on more than five files,
  in both cases without any request. For one to five files its one request is a POST to
  \<open>/api/generate-image\<close>, and on an ok response whose body has the string \<open>image\<close> the promise
  resolves to "data:image/png;base64," followed by that string.
\<close>

theorem generateImage_outcomes:
  "(length files = 0 \<longrightarrow>
      generateImage fetch files watermarkText =
        ([], Inl (Error (js ''At least one reference image is required'')))) \<and>
   (5 < length files \<longrightarrow>
      generateImage fetch files watermarkText =
        ([], Inl (Error (js ''Maximum 5 reference images allowed'')))) \<and>
   (1 \<le> length files \<and> length files \<le> 5 \<longrightarrow>
      (\<exists>rest. fst (generateImage fetch files watermarkText) =
           Fetch \<lparr>url = API_BASE @ js ''/api/generate-image'', httpMethod = js ''POST'',
                  body = Some (formData files watermarkText)\<rparr> # rest \<and>
           filter isFetch rest = []) \<and>
      (\<forall>r data img.
         fetch \<lparr>url = API_BASE @ js ''/api/generate-image'', httpMethod = js ''POST'',
                 body = Some (formData files watermarkText)\<rparr> = Response r \<and>
         ok r \<and> json_body r = Parsed data \<and>
         getProp data (js ''image'') = Inr (Some (JStr img)) \<longrightarrow>
         snd (generateImage fetch files watermarkText) = Inr (js ''data:image/png;base64,'' @ img)))"
proof (intro conjI impI allI)
  assume "length files = 0"
  then show "generateImage fetch files watermarkText =
        ([], Inl (Error (js ''At least one reference image is required'')))"
    by (simp add: generateImage_def)
next
  assume "5 < length files"
  then show "generateImage fetch files watermarkText =
        ([], Inl (Error (js ''Maximum 5 reference images allowed'')))"
    by (auto simp: generateImage_def)
next
  assume "1 \<le> length files \<and> length files \<le> 5"
  then have "length files \<noteq> 0" and "\<not> 5 < length files" by auto
  then show "\<exists>rest. fst (generateImage fetch files watermarkText) =
           Fetch \<lparr>url = API_BASE @ js ''/api/generate-image'', httpMethod = js ''POST'',
                  body = Some (formData files watermarkText)\<rparr> # rest \<and>
           filter isFetch rest = []"
    by (rule generateImage_requests)
next
  fix r data img
  assume valid: "1 \<le> length files \<and> length files \<le> 5"
    and resp: "fetch \<lparr>url = API_BASE @ js ''/api/generate-image'', httpMethod = js ''POST'',
                 body = Some (formData files watermarkText)\<rparr> = Response r \<and>
         ok r \<and> json_body r = Parsed data \<and>
         getProp data (js ''image'') = Inr (Some (JStr img))"
  from valid have "length files \<noteq> 0" and "\<not> 5 < length files" by auto
  moreover from resp have "fetch \<lparr>url = API_BASE @ js ''/api/generate-image'', httpMethod = js ''POST'',
                 body = Some (formData files watermarkText)\<rparr> = Response r"
    and "ok r" and "json_body r = Parsed data"
    and "getProp data (js ''image'') = Inr (Some (JStr img))" by simp_all
  ultimately show "snd (generateImage fetch files watermarkText) = Inr (js ''data:image/png;base64,'' @ img)"
    by (rule generateImage_success)
qed

theorem generateImage_outcomes_witness:
  "generateImage (\<lambda>r. Rejected) ([] :: nat list) None =
     ([], Inl (Error (js ''At least one reference image is required''))) \<and>
   generateImage (\<lambda>r. Rejected) [1, 2, 3, 4, 5, 6 :: nat] None =
     ([], Inl (Error (js ''Maximum 5 reference images allowed''))) \<and>
   snd (generateImage
          (\<lambda>r. Response \<lparr>ok = True, statusText = js ''OK'',
                           json_body = Parsed (JObj [(js ''image'', JStr (js ''QUJD''))])\<rparr>)
          [1, 2 :: nat] (Some (js ''hi''))) =
     Inr (js ''data:image/png;base64,'' @ js ''QUJD'')"
proof -
  let ?fetch = "\<lambda>r :: nat request. Response \<lparr>ok = True, statusText = js ''OK'',
                           json_body = Parsed (JObj [(js ''image'', JStr (js ''QUJD''))])\<rparr>"
  have a: "generateImage (\<lambda>r. Rejected) ([] :: nat list) None =
     ([], Inl (Error (js ''At least one reference image is required'')))"
    using generateImage_outcomes [of "[] :: nat list" "\<lambda>r. Rejected" None] by simp
  have b: "generateImage (\<lambda>r. Rejected) [1, 2, 3, 4, 5, 6 :: nat] None =
     ([], Inl (Error (js ''Maximum 5 reference images allowed'')))"
    using generateImage_outcomes [of "[1, 2, 3, 4, 5, 6 :: nat]" "\<lambda>r. Rejected" None] by simp
  have "\<forall>r data img.
         ?fetch \<lparr>url = API_BASE @ js ''/api/generate-image'', httpMethod = js ''POST'',
                 body = Some (formData [1, 2 :: nat] (Some (js ''hi'')))\<rparr> = Response r \<and>
         ok r \<and> json_body r = Parsed data \<and>
         getProp data (js ''image'') = Inr (Some (JStr img)) \<longrightarrow>
         snd (generateImage ?fetch [1, 2 :: nat] (Some (js ''hi''))) = Inr (js ''data:image/png;base64,'' @ img)"
    using generateImage_outcomes [of "[1, 2 :: nat]" ?fetch "Some (js ''hi'')"] by simp
  then have c: "snd (generateImage ?fetch [1, 2 :: nat] (Some (js ''hi''))) =
      Inr (js ''data:image/png;base64,'' @ js ''QUJD'')"
    by simp
  from a b c show ?thesis by blast
qed

text \<open>
  Claim C4. For a valid file list the request of \<open>generateImage\<close> carries a field
  \<open>watermark_text\<close> exactly when a watermark text was given and is not empty after \<open>trim\<close>;
  the field then holds the text as given. An omitted, empty or whitespace-only text sends
  no such field.
\<close>

theorem watermark_text_sent_iff_nonblank:
  assumes "1 \<le> length files" and "length files \<le> 5"
  shows "(\<exists>rest. fst (generateImage fetch files watermarkText) =
            Fetch \<lparr>url = API_BASE @ js ''/api/generate-image'', httpMethod = js ''POST'',
                   body = Some (formData files watermarkText)\<rparr> # rest \<and>
            filter isFetch rest = []) \<and>
         (js ''watermark_text'' \<in> fst ` set (formData files watermarkText) \<longleftrightarrow>
            (\<exists>w. watermarkText = Some w \<and> trim w \<noteq> [])) \<and>
         (\<forall>w. watermarkText = Some w \<and> trim w \<noteq> [] \<longrightarrow>
            map snd (filter (\<lambda>(k, v). k = js ''watermark_text'') (formData files watermarkText)) =
              [TextValue w]) \<and>
         (watermarkText = None \<or> watermarkText = Some [] \<or>
          (\<exists>w. watermarkText = Some w \<and> list_all isWhiteSpace w) \<longrightarrow>
            js ''watermark_text'' \<notin> fst ` set (formData files watermarkText))"
proof (intro conjI)
  from assms have "length files \<noteq> 0" and "\<not> 5 < length files" by auto
  then show "\<exists>rest. fst (generateImage fetch files watermarkText) =
            Fetch \<lparr>url = API_BASE @ js ''/api/generate-image'', httpMethod = js ''POST'',
                   body = Some (formData files watermarkText)\<rparr> # rest \<and>
            filter isFetch rest = []"
    by (rule generateImage_requests)
next
  show "js ''watermark_text'' \<in> fst ` set (formData files watermarkText) \<longleftrightarrow>
            (\<exists>w. watermarkText = Some w \<and> trim w \<noteq> [])"
    by (rule formData_watermark_iff)
next
  show "\<forall>w. watermarkText = Some w \<and> trim w \<noteq> [] \<longrightarrow>
            map snd (filter (\<lambda>(k, v). k = js ''watermark_text'') (formData files watermarkText)) =
              [TextValue w]"
    using formData_watermark_value by blast
next
  show "watermarkText = None \<or> watermarkText = Some [] \<or>
          (\<exists>w. watermarkText = Some w \<and> list_all isWhiteSpace w) \<longrightarrow>
            js ''watermark_text'' \<notin> fst ` set (formData files watermarkText)"
    unfolding formData_watermark_iff using trim_empty_iff by auto
qed

theorem watermark_text_sent_iff_nonblank_witness:
  "js ''watermark_text'' \<in> fst ` set (formData [1, 2 :: nat] (Some (js '' hi ''))) \<and>
   map snd (filter (\<lambda>(k, v). k = js ''watermark_text'') (formData [1, 2 :: nat] (Some (js '' hi '')))) =
     [TextValue (js '' hi '')] \<and>
   js ''watermark_text'' \<notin> fst ` set (formData [1, 2 :: nat] (Some (js ''   '')))"
proof -
  have len: "1 \<le> length [1, 2 :: nat]" "length [1, 2 :: nat] \<le> 5" by simp_all
  have t: "trim (js '' hi '') \<noteq> []"
    by (simp add: trim_def js_def isWhiteSpace_def)
  have b: "list_all isWhiteSpace (js ''   '')"
    by (simp add: js_def isWhiteSpace_def)
  from watermark_text_sent_iff_nonblank [OF len, of "\<lambda>r. Rejected" "Some (js '' hi '')"] t
  have "js ''watermark_text'' \<in> fst ` set (formData [1, 2 :: nat] (Some (js '' hi '')))"
    and "map snd (filter (\<lambda>(k, v). k = js ''watermark_text'') (formData [1, 2 :: nat] (Some (js '' hi '')))) =
     [TextValue (js '' hi '')]"
    by simp_all
  moreover from watermark_text_sent_iff_nonblank [OF len, of "\<lambda>r. Rejected" "Some (js ''   '')"] b
  have "js ''watermark_text'' \<notin> fst ` set (formData [1, 2 :: nat] (Some (js ''   '')))"
    by blast
  ultimately show ?thesis by blast
qed

section \<open>Properties of the generation screen\<close>

lemma filterOutIndex_nths: "filterOutIndex index xs = nths xs {i. i \<noteq> index}"
  by (simp add: filterOutIndex_def nths_def case_prod_unfold)

lemma length_filterOutIndex:
  "length (filterOutIndex index xs) = (if index < length xs then length xs - 1 else length xs)"
proof -
  have "{i. i < length xs \<and> i \<in> {i. i \<noteq> index}} = {..<length xs} - {index}" by auto
  then have "length (filterOutIndex index xs) = card ({..<length xs} - {index})"
    by (simp add: filterOutIndex_nths length_nths)
  then show ?thesis by simp
qed

lemma nat_remainingSlots: "nat (5 - int n) = 5 - n"
  by arith

lemma handleFiles_sourceImages:
  "sourceImages (handleFiles createObjectURL files s) =
     sourceImages s @ take (5 - length (sourceImages s)) files"
  by (simp add: handleFiles_def Let_def nat_remainingSlots)

lemma handleFiles_previewUrls:
  "previewUrls (handleFiles createObjectURL files s) =
     previewUrls s @ map createObjectURL (take (5 - length (sourceImages s)) files)"
  by (simp add: handleFiles_def Let_def nat_remainingSlots)

lemma handleFiles_activeIndex:
  "activeIndex (handleFiles createObjectURL files s) =
     (if length (sourceImages s) = 0 then 0 else activeIndex s)"
  by (simp add: handleFiles_def Let_def)

lemma handleFiles_invariant:
  assumes "creation_invariant s"
  shows "creation_invariant (handleFiles createObjectURL files s)"
proof -
  define n where "n = length (sourceImages s)"
  from assms have "n \<le> 5" and "length (previewUrls s) = n"
    and "0 \<le> activeIndex s" and "activeIndex s \<le> max 0 (int n - 1)"
    by (simp_all add: creation_invariant_def n_def)
  then show ?thesis
    unfolding creation_invariant_def handleFiles_sourceImages handleFiles_previewUrls
      handleFiles_activeIndex n_def [symmetric] length_append length_map length_take
    by (auto simp: min_def max_def split: if_splits)
qed

lemma removeImage_sourceImages:
  "sourceImages (removeImage index s) = filterOutIndex index (sourceImages s)"
  by (simp add: removeImage_def Let_def)

lemma removeImage_previewUrls:
  "previewUrls (removeImage index s) = filterOutIndex index (previewUrls s)"
  by (simp add: removeImage_def Let_def)

lemma removeImage_activeIndex:
  "activeIndex (removeImage index s) =
     (if activeIndex s \<ge> int (length (filterOutIndex index (sourceImages s)))
      then max 0 (int (length (filterOutIndex index (sourceImages s))) - 1)
      else activeIndex s)"
  by (simp add: removeImage_def Let_def)

lemma removeImage_invariant:
  assumes "creation_invariant s"
  shows "creation_invariant (removeImage index s)"
proof -
  define n where "n = length (sourceImages s)"
  define n' where "n' = (if index < n then n - 1 else n)"
  from assms have "n \<le> 5" and urls: "length (previewUrls s) = n"
    and "0 \<le> activeIndex s"
    by (simp_all add: creation_invariant_def n_def)
  have a: "length (filterOutIndex index (sourceImages s)) = n'"
    by (simp only: length_filterOutIndex n_def n'_def)
  have b: "length (filterOutIndex index (previewUrls s)) = n'"
    by (simp only: length_filterOutIndex urls n'_def)
  have "n' \<le> n" by (simp add: n'_def)
  with \<open>n \<le> 5\<close> \<open>0 \<le> activeIndex s\<close> show ?thesis
    unfolding creation_invariant_def removeImage_sourceImages removeImage_previewUrls
      removeImage_activeIndex a b
    by (simp add: max_def)
qed

lemma reset_invariant: "creation_invariant (creation_reset s)"
  by (simp add: creation_invariant_def creation_reset_def)

text \<open>
  Claim C8. \<open>handleFiles\<close>, \<open>removeImage\<close> and \<open>reset\<close> keep the invariant of the image library
  (at most five source images, as many preview URLs, an active index between 0 and
  \<open>max(0, length - 1)\<close>), which the initial state has; \<open>handleFiles\<close> appends only as many of
  the incoming files as there are free slots.
\<close>

theorem creation_updates_keep_invariant:
  assumes "creation_invariant s"
  shows "creation_invariant (handleFiles createObjectURL files s) \<and>
         creation_invariant (removeImage index s) \<and>
         creation_invariant (creation_reset s) \<and>
         creation_invariant (creation_initial :: 'f creation) \<and>
         sourceImages (handleFiles createObjectURL files s) =
           sourceImages s @ take (5 - length (sourceImages s)) files"
proof -
  have "creation_invariant (creation_initial :: 'f creation)"
    by (simp add: creation_invariant_def creation_initial_def)
  with assms show ?thesis
    using handleFiles_invariant [of s createObjectURL files] removeImage_invariant [of s index]
      reset_invariant [of s] handleFiles_sourceImages [of createObjectURL files s]
    by blast
qed

theorem creation_updates_keep_invariant_witness:
  "creation_invariant (creation_initial\<lparr>sourceImages := [1, 2, 3 :: nat],
       previewUrls := [js ''a'', js ''b'', js ''c''], activeIndex := 2\<rparr>) \<and>
   creation_invariant (handleFiles (\<lambda>f. js ''u'') [4, 5, 6, 7]
     (creation_initial\<lparr>sourceImages := [1, 2, 3 :: nat],
       previewUrls := [js ''a'', js ''b'', js ''c''], activeIndex := 2\<rparr>)) \<and>
   sourceImages (handleFiles (\<lambda>f. js ''u'') [4, 5, 6, 7]
     (creation_initial\<lparr>sourceImages := [1, 2, 3 :: nat],
       previewUrls := [js ''a'', js ''b'', js ''c''], activeIndex := 2\<rparr>)) = [1, 2, 3, 4, 5] \<and>
   creation_invariant (removeImage 2
     (creation_initial\<lparr>sourceImages := [1, 2, 3 :: nat],
       previewUrls := [js ''a'', js ''b'', js ''c''], activeIndex := 2\<rparr>))"
proof -
  let ?s = "creation_initial\<lparr>sourceImages := [1, 2, 3 :: nat],
       previewUrls := [js ''a'', js ''b'', js ''c''], activeIndex := 2\<rparr>"
  have inv: "creation_invariant ?s"
    by (simp add: creation_invariant_def creation_initial_def)
  from creation_updates_keep_invariant [OF inv, of "\<lambda>f. js ''u''" "[4, 5, 6, 7]" 2]
  have a: "creation_invariant (handleFiles (\<lambda>f. js ''u'') [4, 5, 6, 7] ?s)"
    and b: "creation_invariant (removeImage 2 ?s)"
    and c: "sourceImages (handleFiles (\<lambda>f. js ''u'') [4, 5, 6, 7] ?s) =
              sourceImages ?s @ take (5 - length (sourceImages ?s)) [4, 5, 6, 7]"
    by blast+
  have "sourceImages ?s @ take (5 - length (sourceImages ?s)) [4, 5, 6, 7] = [1, 2, 3, 4, 5]"
    by (simp add: creation_initial_def)
  with c have "sourceImages (handleFiles (\<lambda>f. js ''u'') [4, 5, 6, 7] ?s) = [1, 2, 3, 4, 5]"
    by (rule trans)
  with inv a b show ?thesis by blast
qed







section \<open>Properties of the verification screen\<close>

lemma scanTimers_cases:
  "scanTimers t now =
     (if now < t + 1500
      then [(t + 1500, SetVerificationStep 2), (t + 3000, SetVerificationStep 3), (t + 4500, CompleteScan)]
      else if now < t + 3000 then [(t + 3000, SetVerificationStep 3), (t + 4500, CompleteScan)]
      else if now < t + 4500 then [(t + 4500, CompleteScan)]
      else [])"
  by (auto simp: scanTimers_def)

lemma scanTimers_sorted: "sorted (map fst (scanTimers t now))"
  by (simp add: scanTimers_cases)

lemma scanTimers_later:
  "filter (\<lambda>(due, cb). \<not> due \<le> now + d) (scanTimers t now) = scanTimers t (now + d)"
  by (auto simp: scanTimers_def)

lemma sort_due:
  "sort_key fst (filter P (scanTimers t now)) = filter P (scanTimers t now)"
  by (rule sort_key_id_if_sorted) (simp add: sorted_filter scanTimers_sorted)

lemma elapse_scan:
  assumes "timers p = scanTimers t (clock p)"
  shows "elapse d p =
           p\<lparr>component :=
               fold runCallback
                 (map snd (filter (\<lambda>(due, cb). due \<le> clock p + d) (scanTimers t (clock p))))
                 (component p),
             clock := clock p + d,
             timers := scanTimers t (clock p + d)\<rparr>"
  by (simp add: elapse_def Let_def assms sort_due scanTimers_later)

lemma elapse_idle:
  assumes "timers p = []"
  shows "elapse d p = p\<lparr>clock := clock p + d\<rparr>"
  by (simp add: elapse_def assms)

lemma due_cases:
  "map snd (filter (\<lambda>(due, cb). due \<le> now + d) (scanTimers t now)) =
     (if now + d < t + 1500 then []
      else if now + d < t + 3000 then (if now < t + 1500 then [SetVerificationStep 2] else [])
      else if now + d < t + 4500
      then (if now < t + 1500 then [SetVerificationStep 2, SetVerificationStep 3]
            else if now < t + 3000 then [SetVerificationStep 3] else [])
      else (if now < t + 1500 then [SetVerificationStep 2, SetVerificationStep 3, CompleteScan]
            else if now < t + 3000 then [SetVerificationStep 3, CompleteScan]
            else if now < t + 4500 then [CompleteScan] else []))"
  by (auto simp: scanTimers_def)


lemma elapse_invariant:
  assumes "page_invariant p"
  shows "page_invariant (elapse d p)"
proof (cases "isScanning (component p)")
  case False
  with assms have "timers p = []" and "\<not> (scanComplete (component p) \<and> isScanning (component p))"
    by (simp_all add: page_invariant_def)
  with False show ?thesis by (simp add: elapse_idle page_invariant_def)
next
  case True
  with assms obtain t where t: "clock p < t + 4500" "timers p = scanTimers t (clock p)"
    and nc: "\<not> scanComplete (component p)"
    by (auto simp: page_invariant_def)
  show ?thesis
  proof (cases "clock p + d < t + 4500")
    case True
    with \<open>isScanning (component p)\<close> nc t have
      "isScanning (component (elapse d p))" "\<not> scanComplete (component (elapse d p))"
      "timers (elapse d p) = scanTimers t (clock (elapse d p))" "clock (elapse d p) < t + 4500"
      by (simp_all add: elapse_scan [OF t(2)] due_cases)
    then show ?thesis by (auto simp: page_invariant_def)
  next
    case False
    with t have
      "\<not> isScanning (component (elapse d p))" "timers (elapse d p) = []"
      by (simp_all add: elapse_scan [OF t(2)] due_cases scanTimers_cases)
    then show ?thesis by (simp add: page_invariant_def)
  qed
qed

lemma clickScan_started:
  assumes "\<not> scanComplete (component p)" "imageFile (component p) \<noteq> None"
    "\<not> isScanning (component p)" "timers p = []"
  shows "dispatch createObjectURL ClickScan p =
           p\<lparr>component := (component p)\<lparr>isScanning := True, verificationStep := 1\<rparr>,
             timers := scanTimers (clock p) (clock p)\<rparr>"
  using assms by (cases "imageFile (component p)") (simp_all add: handleScan_def scanTimers_cases)

lemma dispatch_invariant:
  assumes "page_invariant p"
  shows "page_invariant (dispatch createObjectURL e p)"
proof (cases e)
  case (DropFile f)
  with assms show ?thesis by (auto simp: page_invariant_def processFile_def)
next
  case (ChooseFile f)
  with assms show ?thesis by (auto simp: page_invariant_def processFile_def)
next
  case ClickScan
  show ?thesis
  proof (cases "scanComplete (component p) \<or> imageFile (component p) = None \<or> isScanning (component p)")
    case True
    with assms ClickScan show ?thesis by simp
  next
    case False
    then have en: "\<not> scanComplete (component p)" "imageFile (component p) \<noteq> None"
      "\<not> isScanning (component p)" by simp_all
    with assms have idle: "timers p = []" by (simp add: page_invariant_def)
    let ?q = "p\<lparr>component := (component p)\<lparr>isScanning := True, verificationStep := 1\<rparr>,
             timers := scanTimers (clock p) (clock p)\<rparr>"
    have eq: "dispatch createObjectURL ClickScan p = ?q"
      using en idle by (rule clickScan_started)
    have "\<exists>t. clock p < t + 4500 \<and> scanTimers (clock p) (clock p) = scanTimers t (clock p)"
      by (rule exI [of _ "clock p"]) simp
    with en have "page_invariant ?q" by (simp add: page_invariant_def)
    with eq ClickScan show ?thesis by (simp only:)
  qed
next
  case ClickReset
  with assms show ?thesis by (auto simp: page_invariant_def detection_reset_def)
next
  case (Elapse d)
  with assms show ?thesis by (simp add: elapse_invariant)
qed

lemma fold_dispatch_invariant:
  "page_invariant p \<Longrightarrow> page_invariant (fold (dispatch createObjectURL) es p)"
  by (induction es arbitrary: p) (simp_all add: dispatch_invariant)

lemma run_invariant: "page_invariant (run createObjectURL es page_initial)"
  unfolding run_def
  by (rule fold_dispatch_invariant) (simp add: page_invariant_def page_initial_def detection_initial_def)


lemma scan_component:
  assumes "\<not> scanComplete (component p)" "imageFile (component p) \<noteq> None"
    "\<not> isScanning (component p)" "timers p = []"
  shows "component (elapse d (dispatch createObjectURL ClickScan p)) =
           fold runCallback
             (if d < 1500 then []
              else if d < 3000 then [SetVerificationStep 2]
              else if d < 4500 then [SetVerificationStep 2, SetVerificationStep 3]
              else [SetVerificationStep 2, SetVerificationStep 3, CompleteScan])
             ((component p)\<lparr>isScanning := True, verificationStep := 1\<rparr>)"
proof -
  let ?q = "p\<lparr>component := (component p)\<lparr>isScanning := True, verificationStep := 1\<rparr>,
             timers := scanTimers (clock p) (clock p)\<rparr>"
  have eq: "dispatch createObjectURL ClickScan p = ?q"
    using assms by (rule clickScan_started)
  have "timers ?q = scanTimers (clock p) (clock ?q)" by simp
  from elapse_scan [OF this, of d] show ?thesis
    unfolding eq by (simp add: due_cases)
qed


lemma scan_metadata:
  assumes "\<not> scanComplete (component p)" "imageFile (component p) \<noteq> None"
    "\<not> isScanning (component p)" "timers p = []" "4500 \<le> d"
  shows "metadata (component (elapse d (dispatch createObjectURL ClickScan p))) = Some FAKE_METADATA"
    and "scanComplete (component (elapse d (dispatch createObjectURL ClickScan p)))"
  using assms(5) unfolding scan_component [OF assms(1-4)] by simp_all

lemma FAKE_METADATA_lines:
  "split 0x0A FAKE_METADATA =
     [js ''PROVENANCE_KEY_VERIFIED: 0x92f...a12b'', js ''TIMESTAMP: 2024-12-06T19:42:00Z'',
      js ''ORIGIN: NEXUS_TERMINAL_ALPHA'', js ''INTEGRITY: 100%'']"
  by (simp add: FAKE_METADATA_def js_def)



lemma run_upload_scan:
  "run createObjectURL [e, ClickScan, Elapse d] p =
     elapse d (dispatch createObjectURL ClickScan (dispatch createObjectURL e p))"
  by (simp add: run_def)



text \<open>
  The drop handler is not disabled during a scan as the file input is: a file dropped
  1000 ms into a scan sets the displayed step back to 0, and the timers go on to show
  step 2 at 1500 ms and to complete the scan at 4500 ms.
\<close>

lemma drop_during_scan:
  "progress (run (\<lambda>f. js ''blob:7'')
       [DropFile (7 :: nat), ClickScan, Elapse 1000, DropFile 8] page_initial) = (0, True, False) \<and>
   progress (run (\<lambda>f. js ''blob:7'')
       [DropFile (7 :: nat), ClickScan, Elapse 1000, DropFile 8, Elapse 500] page_initial) =
     (2, True, False) \<and>
   progress (run (\<lambda>f. js ''blob:7'')
       [DropFile (7 :: nat), ClickScan, Elapse 1000, DropFile 8, Elapse 500, Elapse 3000]
       page_initial) = (3, False, True)"
  by (simp add: run_def progress_def page_initial_def detection_initial_def processFile_def
      handleScan_def elapse_def)

lemma uploaded_scan:
  assumes "page_invariant p" and "\<not> isScanning (component p)" and "4500 \<le> d"
    and "e = DropFile f \<or> e = ChooseFile f"
  shows "metadata (component (run createObjectURL [e, ClickScan, Elapse d] p)) = Some FAKE_METADATA"
    and "scanComplete (component (run createObjectURL [e, ClickScan, Elapse d] p))"
proof -
  let ?q = "p\<lparr>component := processFile createObjectURL f (component p)\<rparr>"
  from assms(2,4) have q: "dispatch createObjectURL e p = ?q" by auto
  from assms(1,2) have "timers p = []" by (simp add: page_invariant_def)
  with assms(2) have en: "\<not> scanComplete (component ?q)" "imageFile (component ?q) \<noteq> None"
    "\<not> isScanning (component ?q)" "timers ?q = []"
    by (simp_all add: processFile_def)
  from scan_metadata [OF en assms(3), of createObjectURL]
  show "metadata (component (run createObjectURL [e, ClickScan, Elapse d] p)) = Some FAKE_METADATA"
    and "scanComplete (component (run createObjectURL [e, ClickScan, Elapse d] p))"
    unfolding run_upload_scan q by blast+
qed

lemma handleScan_effects: "filter isFetch (fst (handleScan s)) = []"
  by (simp add: handleScan_def)

text \<open>
  Claim C1. \<open>handleScan\<close> asks for timers only, no request; and from any state the page
  reaches without a scan running, whichever file is uploaded (dropped or chosen), once the
  4500 ms of the scan have passed the metadata is the one hard-coded text and the results
  panel shows its four lines, so two files give the same result.
\<close>

theorem scan_result_is_hard_coded:
  assumes "p = run createObjectURL es page_initial" and "\<not> isScanning (component p)"
    and "4500 \<le> d" and "e = DropFile f \<or> e = ChooseFile f"
    and "e' = DropFile g \<or> e' = ChooseFile g"
  shows "resultsPanel (component (run createObjectURL [e, ClickScan, Elapse d] p)) =
           Some [js ''PROVENANCE_KEY_VERIFIED: 0x92f...a12b'', js ''TIMESTAMP: 2024-12-06T19:42:00Z'',
                 js ''ORIGIN: NEXUS_TERMINAL_ALPHA'', js ''INTEGRITY: 100%''] \<and>
         metadata (component (run createObjectURL [e, ClickScan, Elapse d] p)) = Some FAKE_METADATA \<and>
         resultsPanel (component (run createObjectURL [e, ClickScan, Elapse d] p)) =
           resultsPanel (component (run createObjectURL [e', ClickScan, Elapse d] p)) \<and>
         filter isFetch (fst (handleScan s)) = []"
proof -
  have inv: "page_invariant p" unfolding assms(1) by (rule run_invariant)
  note f = uploaded_scan [OF inv assms(2,3,4), of createObjectURL]
  note g = uploaded_scan [OF inv assms(2,3,5), of createObjectURL]
  from f g show ?thesis
    by (simp add: resultsPanel_def FAKE_METADATA_lines handleScan_effects)
qed

theorem scan_result_is_hard_coded_witness:
  "resultsPanel (component (run (\<lambda>f. js ''blob:1'') [DropFile (1 :: nat), ClickScan, Elapse 4500]
       (run (\<lambda>f. js ''blob:1'') [] page_initial))) =
     Some [js ''PROVENANCE_KEY_VERIFIED: 0x92f...a12b'', js ''TIMESTAMP: 2024-12-06T19:42:00Z'',
           js ''ORIGIN: NEXUS_TERMINAL_ALPHA'', js ''INTEGRITY: 100%''] \<and>
   resultsPanel (component (run (\<lambda>f. js ''blob:1'') [DropFile (1 :: nat), ClickScan, Elapse 4500]
       (run (\<lambda>f. js ''blob:1'') [] page_initial))) =
   resultsPanel (component (run (\<lambda>f. js ''blob:1'') [ChooseFile (2 :: nat), ClickScan, Elapse 4500]
       (run (\<lambda>f. js ''blob:1'') [] page_initial)))"
proof -
  let ?u = "\<lambda>f :: nat. js ''blob:1''"
  let ?p = "run ?u [] page_initial"
  have idle: "\<not> isScanning (component ?p)"
    by (simp add: run_def page_initial_def detection_initial_def)
  have h: "(4500 :: nat) \<le> 4500"
    "DropFile (1 :: nat) = DropFile 1 \<or> DropFile (1 :: nat) = ChooseFile 1"
    "ChooseFile (2 :: nat) = DropFile 2 \<or> ChooseFile (2 :: nat) = ChooseFile 2"
    by simp_all
  from scan_result_is_hard_coded [OF refl idle h]
  show ?thesis by blast
qed

section \<open>Properties of the routes\<close>







end
